theory Spec2Isabelle
  imports Main "HOL-Library.Sublist"
begin

section \<open>Text\<close>

text \<open>
  Message text is a list of characters read as ASCII code points. The character
  classes below are Python's \<^verbatim>\<open>str.isspace\<close>, \<^verbatim>\<open>str.lower\<close> and the \<^verbatim>\<open>\w\<close> class of
  \<^verbatim>\<open>re\<close> on that range; code points from 128 on are taken to be neither letters nor
  whitespace.
\<close>

definition is_space :: "char \<Rightarrow> bool" where
  "is_space c = (c \<in> set [CHR 0x09, CHR 0x0A, CHR 0x0B, CHR 0x0C, CHR 0x0D,
                           CHR 0x1C, CHR 0x1D, CHR 0x1E, CHR 0x1F, CHR 0x20])"

definition uppercase :: string where
  "uppercase = ''ABCDEFGHIJKLMNOPQRSTUVWXYZ''"

definition lowercase :: string where
  "lowercase = ''abcdefghijklmnopqrstuvwxyz''"

definition digits :: string where
  "digits = ''0123456789''"


definition is_word :: "char \<Rightarrow> bool" where
  "is_word c = (c \<in> set (uppercase @ lowercase @ digits @ ''_''))"

definition lower_char :: "char \<Rightarrow> char" where
  "lower_char c = (case map_of (zip uppercase lowercase) c of Some d \<Rightarrow> d | None \<Rightarrow> c)"

text \<open>\<^verbatim>\<open>s.lower()\<close>\<close>

definition lower :: "string \<Rightarrow> string" where
  "lower s = map lower_char s"


text \<open>\<^verbatim>\<open>s.startswith(p)\<close> is \<^term>\<open>prefix p s\<close>; \<^verbatim>\<open>s.endswith(p)\<close> is \<^term>\<open>suffix p s\<close>;
  \<^verbatim>\<open>s[n:]\<close> is \<^term>\<open>drop n s\<close>.\<close>



section \<open>Regular expressions\<close>

text \<open>
  The patterns of the program use literals, the classes \<^verbatim>\<open>\s\<close>, \<^verbatim>\<open>\S\<close> and \<^verbatim>\<open>.\<close>
  under \<^verbatim>\<open>+\<close>, \<^verbatim>\<open>*\<close> and \<^verbatim>\<open>+?\<close>, the anchors \<^verbatim>\<open>^\<close>, \<^verbatim>\<open>$\<close> and \<^verbatim>\<open>\b\<close>, alternation and
  groups. The matcher is the backtracking one of Python's \<^verbatim>\<open>re\<close>: it lists the
  ways a pattern matches at a position in the order the engine tries them, so the
  head of the list is the match Python reports.
\<close>

datatype cls = Space | NonSpace | Dot

fun in_cls :: "cls \<Rightarrow> char \<Rightarrow> bool" where
  "in_cls Space c = is_space c"
| "in_cls NonSpace c = (\<not> is_space c)"
| "in_cls Dot c = (c \<noteq> CHR 0x0A)"

datatype rx =
    Lit string
  | Bos
  | Eos
  | WordB
  | Plus cls
  | Star cls
  | PlusLazy cls
  | Seq rx rx
  | Alt rx rx
  | Grp rx

text \<open>A cursor: the character before the position (none at the start of the text),
  the text from the position on, and the groups closed so far.\<close>

type_synonym cursor = "char option \<times> string \<times> string list"

definition advance :: "cursor \<Rightarrow> nat \<Rightarrow> cursor" where
  "advance cur k = (case cur of (p, s, g) \<Rightarrow>
     ((case rev (take k s) of [] \<Rightarrow> p | c # _ \<Rightarrow> Some c), drop k s, g))"

definition word_before :: "char option \<Rightarrow> bool" where
  "word_before p = (case p of None \<Rightarrow> False | Some c \<Rightarrow> is_word c)"

definition word_after :: "string \<Rightarrow> bool" where
  "word_after s = (case s of [] \<Rightarrow> False | c # _ \<Rightarrow> is_word c)"

definition lit_matches :: "bool \<Rightarrow> string \<Rightarrow> string \<Rightarrow> bool" where
  "lit_matches ic l s = (if ic then prefix (lower l) (lower s) else prefix l s)"

fun rx_step :: "bool \<Rightarrow> rx \<Rightarrow> cursor \<Rightarrow> cursor list" where
  "rx_step ic (Lit l) (p, s, g) =
     (if lit_matches ic l s then [advance (p, s, g) (length l)] else [])"
| "rx_step ic Bos (p, s, g) = (if p = None then [(p, s, g)] else [])"
| "rx_step ic Eos (p, s, g) = (if s = [] \<or> s = [CHR 0x0A] then [(p, s, g)] else [])"
| "rx_step ic WordB (p, s, g) =
     (if word_before p \<noteq> word_after s then [(p, s, g)] else [])"
| "rx_step ic (Plus c) (p, s, g) =
     map (advance (p, s, g)) (rev [1 ..< Suc (length (takeWhile (in_cls c) s))])"
| "rx_step ic (Star c) (p, s, g) =
     map (advance (p, s, g)) (rev [0 ..< Suc (length (takeWhile (in_cls c) s))])"
| "rx_step ic (PlusLazy c) (p, s, g) =
     map (advance (p, s, g)) [1 ..< Suc (length (takeWhile (in_cls c) s))]"
| "rx_step ic (Seq r1 r2) cur = concat (map (rx_step ic r2) (rx_step ic r1 cur))"
| "rx_step ic (Alt r1 r2) cur = rx_step ic r1 cur @ rx_step ic r2 cur"
| "rx_step ic (Grp r) (p, s, g) =
     map (\<lambda>(p', s', g'). (p', s', g' @ [take (length s - length s') s]))
       (rx_step ic r (p, s, g))"





section \<open>The database\<close>

text \<open>
  The four tables of \<^verbatim>\<open>setup_database\<close>. A table with a primary key that the
  program only reads by key is a map; \<^verbatim>\<open>conversation_history\<close> and
  \<^verbatim>\<open>allowed_channels\<close> are the lists of their rows in insertion order.
\<close>

record history_row =
  row_id :: int
  row_user :: int
  row_role :: string
  row_content :: string

record database =
  user_memory :: "int \<times> string \<rightharpoonup> string"
  lum_preferences :: "string \<rightharpoonup> string"
  conversation_history :: "history_row list"
  allowed_channels :: "(int \<times> string) list"

definition empty_database :: database where
  "empty_database = \<lparr>user_memory = Map.empty, lum_preferences = Map.empty,
     conversation_history = [], allowed_channels = []\<rparr>"

definition set_user_memory :: "int \<Rightarrow> string \<Rightarrow> string \<Rightarrow> database \<Rightarrow> database" where
  "set_user_memory user_id key val d = d\<lparr>user_memory := (user_memory d)((user_id, key) \<mapsto> val)\<rparr>"




text \<open>\<^verbatim>\<open>id INTEGER PRIMARY KEY AUTOINCREMENT\<close>: one more than the largest id in
  the table (no row is ever deleted), 1 in an empty table.\<close>

definition next_id :: "history_row list \<Rightarrow> int" where
  "next_id h = foldr max (map row_id h) 0 + 1"

definition add_conversation_message :: "int \<Rightarrow> string \<Rightarrow> string \<Rightarrow> database \<Rightarrow> database" where
  "add_conversation_message user_id role content d =
     d\<lparr>conversation_history := conversation_history d @
        [\<lparr>row_id = next_id (conversation_history d), row_user = user_id,
          row_role = role, row_content = content\<rparr>]\<rparr>"

text \<open>\<^verbatim>\<open>LIMIT ?\<close>: a negative limit is no limit in SQLite.\<close>

definition sql_limit :: "int \<Rightarrow> 'a list \<Rightarrow> 'a list" where
  "sql_limit n xs = (if n < 0 then xs else take (nat n) xs)"

text \<open>\<^verbatim>\<open>WHERE user_id = ? ORDER BY id DESC LIMIT ?\<close>, then \<^verbatim>\<open>rows.reverse()\<close>. The ids
  are a primary key, so descending order is the reverse of ascending order.\<close>

definition get_conversation_history :: "int \<Rightarrow> int \<Rightarrow> database \<Rightarrow> (string \<times> string) list" where
  "get_conversation_history user_id limit d =
     (let rows = sql_limit limit
            (rev (sort_key row_id (filter (\<lambda>r. row_user r = user_id) (conversation_history d))))
      in map (\<lambda>r. (row_role r, row_content r)) (rev rows))"

text \<open>\<^verbatim>\<open>INSERT OR IGNORE\<close> on the primary key \<^verbatim>\<open>channel_id\<close>.\<close>

definition add_allowed_channel :: "int \<Rightarrow> string \<Rightarrow> database \<Rightarrow> database" where
  "add_allowed_channel channel_id channel_name d =
     (if channel_id \<in> set (map fst (allowed_channels d)) then d
      else d\<lparr>allowed_channels := allowed_channels d @ [(channel_id, channel_name)]\<rparr>)"

definition get_allowed_channels :: "database \<Rightarrow> int set" where
  "get_allowed_channels d = set (map fst (allowed_channels d))"

section \<open>Messages, collaborators and effects\<close>

record message =
  author_id :: int
  author_bot :: bool
  channel_id :: int
  channel_name :: "string option"
  is_dm :: bool
  in_guild :: bool
  mentions_bot :: bool
  content :: string

text \<open>
  \<open>channel_name\<close> is \<open>None\<close> when \<^verbatim>\<open>message.channel\<close> has no attribute \<^verbatim>\<open>name\<close>;
  \<open>is_dm\<close> is \<^verbatim>\<open>isinstance(message.channel, discord.DMChannel)\<close>; \<open>in_guild\<close> is
  \<^verbatim>\<open>message.guild is not None\<close>; \<open>mentions_bot\<close> is \<^verbatim>\<open>client.user in message.mentions\<close>.
\<close>

record chat_request =
  model :: string
  messages :: "(string \<times> string) list"
  max_tokens :: nat


text \<open>What a handler does besides writing the database, in order. \<open>Printed\<close> is a
  line of the operator log, without its leading cross mark.\<close>

datatype event =
    Reply string
  | Typing
  | Printed string
  | Chat_call chat_request
  | Image_call string
  | Giphy_search_call string
  | Giphy_random_call

record world =
  db :: database
  trace :: "event list"

definition emit :: "event \<Rightarrow> world \<Rightarrow> world" where
  "emit e w = w\<lparr>trace := trace w @ [e]\<rparr>"

definition write_db :: "(database \<Rightarrow> database) \<Rightarrow> world \<Rightarrow> world" where
  "write_db f w = w\<lparr>db := f (db w)\<rparr>"


section \<open>Message detection\<close>







section \<open>Command handlers\<close>

definition handle_set_channel :: "message \<Rightarrow> world \<Rightarrow> world" where
  "handle_set_channel m w =
     (let name = (case channel_name m of Some n \<Rightarrow> n | None \<Rightarrow> ''DM'') in
      emit (Reply (''Channel **'' @ name @ ''** has been set for Lum to speak.''))
        (write_db (add_allowed_channel (channel_id m) name) w))"















section \<open>The dispatcher\<close>





section \<open>Sequences of operations\<close>

text \<open>Appending the turns \<open>ts\<close> (role and content) of one user in order.\<close>

fun append_turns :: "int \<Rightarrow> (string \<times> string) list \<Rightarrow> database \<Rightarrow> database" where
  "append_turns user_id [] d = d"
| "append_turns user_id ((role, text) # ts) d =
     append_turns user_id ts (add_conversation_message user_id role text d)"

text \<open>The ids of the rows grow along the table, as AUTOINCREMENT leaves them.\<close>

definition ids_increasing :: "history_row list \<Rightarrow> bool" where
  "ids_increasing h = sorted_wrt (<) (map row_id h)"

text \<open>The primary key of \<^verbatim>\<open>allowed_channels\<close>: no channel id occurs twice.\<close>

definition channel_key :: "database \<Rightarrow> bool" where
  "channel_key d = distinct (map fst (allowed_channels d))"

definition entries_for :: "int \<Rightarrow> database \<Rightarrow> (int \<times> string) list" where
  "entries_for cid d = filter (\<lambda>e. fst e = cid) (allowed_channels d)"

section \<open>Views of a world\<close>

text \<open>The replies sent so far and the text-generation calls made so far, in order.\<close>

definition replies :: "world \<Rightarrow> string list" where
  "replies w = concat (map (\<lambda>e. case e of Reply s \<Rightarrow> [s] | _ \<Rightarrow> []) (trace w))"

definition image_calls :: "world \<Rightarrow> string list" where
  "image_calls w = concat (map (\<lambda>e. case e of Image_call p \<Rightarrow> [p] | _ \<Rightarrow> []) (trace w))"

definition chat_calls :: "world \<Rightarrow> chat_request list" where
  "chat_calls w = concat (map (\<lambda>e. case e of Chat_call r \<Rightarrow> [r] | _ \<Rightarrow> []) (trace w))"











section \<open>Sample inputs\<close>

definition initial_world :: world where
  "initial_world = \<lparr>db = empty_database, trace = []\<rparr>"


text \<open>A message of user 7 in the guild channel 5, named general, and one in a
  direct-message channel.\<close>

definition guild_message :: "string \<Rightarrow> message" where
  "guild_message s = \<lparr>author_id = 7, author_bot = False, channel_id = 5,
     channel_name = Some ''general'', is_dm = False, in_guild = True, mentions_bot = False,
     content = s\<rparr>"




section \<open>Evaluation rules\<close>






section \<open>The Conversation Log\<close>

lemma foldr_max_ge: "x \<in> set xs \<Longrightarrow> (x::int) \<le> foldr max xs 0"
  by (induction xs) auto

lemma next_id_greater: "r \<in> set h \<Longrightarrow> row_id r < next_id h"
  using foldr_max_ge [of "row_id r" "map row_id h"] by (simp add: next_id_def)

lemma ids_increasing_add:
  "ids_increasing (conversation_history d) \<Longrightarrow>
   ids_increasing (conversation_history (add_conversation_message u role c d))"
  by (auto simp: ids_increasing_def add_conversation_message_def sorted_wrt_append next_id_greater)

lemma history_add [simp]:
  "conversation_history (add_conversation_message u role c d) =
   conversation_history d @ [\<lparr>row_id = next_id (conversation_history d), row_user = u,
          row_role = role, row_content = c\<rparr>]"
  by (simp add: add_conversation_message_def)

lemma append_turns_shape:
  "ids_increasing (conversation_history d) \<Longrightarrow>
   \<exists>rows. conversation_history (append_turns u ts d) = conversation_history d @ rows
     \<and> ids_increasing (conversation_history d @ rows)
     \<and> filter (\<lambda>r. row_user r = u) rows = rows
     \<and> map (\<lambda>r. (row_role r, row_content r)) rows = ts"
proof (induction ts arbitrary: d)
  case Nil
  then show ?case by simp
next
  case (Cons t ts)
  obtain role c where t: "t = (role, c)" by (cases t)
  let ?d = "add_conversation_message u role c d"
  let ?r = "\<lparr>row_id = next_id (conversation_history d), row_user = u,
          row_role = role, row_content = c\<rparr>"
  have "ids_increasing (conversation_history ?d)"
    using Cons.prems by (rule ids_increasing_add)
  from Cons.IH [OF this] obtain rows where
    rows: "conversation_history (append_turns u ts ?d) = conversation_history ?d @ rows"
      "ids_increasing (conversation_history ?d @ rows)"
      "filter (\<lambda>r. row_user r = u) rows = rows"
      "map (\<lambda>r. (row_role r, row_content r)) rows = ts"
    by blast
  show ?case
    by (rule exI [of _ "?r # rows"]) (use rows t in simp)
qed

lemma recent_of_sorted:
  assumes "ids_increasing h"
  shows "get_conversation_history u (int k) (d\<lparr>conversation_history := h\<rparr>) =
    map (\<lambda>r. (row_role r, row_content r))
      (drop (length (filter (\<lambda>r. row_user r = u) h) - k) (filter (\<lambda>r. row_user r = u) h))"
proof -
  let ?f = "filter (\<lambda>r. row_user r = u) h"
  have "sorted (map row_id h)"
    using assms unfolding ids_increasing_def by (rule sorted_wrt_mono_rel [rotated]) simp
  then have "sorted (map row_id ?f)" by (rule sorted_filter)
  then have "sort_key row_id ?f = ?f" by (rule sort_key_id_if_sorted)
  then show ?thesis
    by (simp add: get_conversation_history_def sql_limit_def take_rev)
qed

lemma recent_after_append:
  assumes "ids_increasing (conversation_history d)" and "k \<le> length ts"
  shows "get_conversation_history u (int k) (append_turns u ts d) = drop (length ts - k) ts"
proof -
  obtain rows where
    rows: "conversation_history (append_turns u ts d) = conversation_history d @ rows"
      "ids_increasing (conversation_history d @ rows)"
      "filter (\<lambda>r. row_user r = u) rows = rows"
      "map (\<lambda>r. (row_role r, row_content r)) rows = ts"
    using append_turns_shape [OF assms(1)] by blast
  let ?d = "append_turns u ts d"
  have len: "length rows = length ts" using rows(4) by (metis length_map)
  have "get_conversation_history u (int k) ?d =
      get_conversation_history u (int k) (?d\<lparr>conversation_history := conversation_history d @ rows\<rparr>)"
    using rows(1) by (metis database.update_convs(3) database.surjective)
  also have "\<dots> = map (\<lambda>r. (row_role r, row_content r)) (drop (length rows - k) rows)"
    using assms(2) len by (simp add: recent_of_sorted [OF rows(2)] rows(3))
  also have "\<dots> = drop (length ts - k) ts"
    using rows(4) len by (simp add: drop_map [symmetric])
  finally show ?thesis .
qed

text \<open>
  C7. Conversation Log round-trip: after the turns \<open>ts\<close> of a user are appended in order,
  the most recent \<open>length ts\<close> turns of that user are exactly \<open>ts\<close>, oldest first, and
  for every \<open>k < length ts\<close> the most recent \<open>k\<close> turns are the last \<open>k\<close> of \<open>ts\<close> in
  that order.
\<close>

theorem conversation_log_round_trip:
  assumes "ids_increasing (conversation_history d)"
  shows "get_conversation_history u (int (length ts)) (append_turns u ts d) = ts
    \<and> (\<forall>k<length ts. get_conversation_history u (int k) (append_turns u ts d)
          = drop (length ts - k) ts)"
  using recent_after_append [OF assms] by simp

theorem conversation_log_round_trip_witness:
  "ids_increasing (conversation_history empty_database)
   \<and> get_conversation_history 7 3
       (append_turns 7 [(''user'', ''hi lum''), (''assistant'', ''hey.''), (''user'', ''who are you?'')]
          empty_database)
     = [(''user'', ''hi lum''), (''assistant'', ''hey.''), (''user'', ''who are you?'')]
   \<and> get_conversation_history 7 2
       (append_turns 7 [(''user'', ''hi lum''), (''assistant'', ''hey.''), (''user'', ''who are you?'')]
          empty_database)
     = [(''assistant'', ''hey.''), (''user'', ''who are you?'')]"
proof -
  let ?ts = "[(''user'', ''hi lum''), (''assistant'', ''hey.''), (''user'', ''who are you?'')]"
  have h: "ids_increasing (conversation_history empty_database)"
    by (simp add: ids_increasing_def empty_database_def)
  have l: "int (length ?ts) = 3" "(2::nat) < length ?ts" by simp_all
  note t = conversation_log_round_trip [OF h, of 7 ?ts]
  from t have a: "get_conversation_history 7 (int (length ?ts)) (append_turns 7 ?ts empty_database) = ?ts"
    by (rule conjunct1)
  from t have "\<forall>k<length ?ts. get_conversation_history 7 (int k) (append_turns 7 ?ts empty_database)
          = drop (length ?ts - k) ?ts"
    by (rule conjunct2)
  from this l(2) have b: "get_conversation_history 7 (int 2) (append_turns 7 ?ts empty_database)
          = drop (length ?ts - 2) ?ts"
    by blast
  from h a b show ?thesis by simp
qed

section \<open>The Allowed-Channel Registry\<close>

lemma one_entry_per_key:
  "distinct (map fst xs) \<Longrightarrow> k \<in> fst ` set xs \<Longrightarrow> length (filter (\<lambda>e. fst e = k) xs) = 1"
proof (induction xs)
  case Nil
  then show ?case by simp
next
  case (Cons x xs)
  show ?case
  proof (cases "fst x = k")
    case True
    have "fst e \<noteq> k" if "e \<in> set xs" for e
      using that Cons.prems(1) True by (auto simp: image_iff)
    then have "filter (\<lambda>e. fst e = k) xs = []"
      by (simp add: filter_empty_conv)
    with True show ?thesis by simp
  next
    case False
    with Cons show ?thesis by auto
  qed
qed

lemma add_allowed_channel_present:
  "cid \<in> get_allowed_channels d \<Longrightarrow> add_allowed_channel cid name d = d"
  by (simp add: add_allowed_channel_def get_allowed_channels_def)

lemma add_allowed_channel_member:
  "cid \<in> get_allowed_channels (add_allowed_channel cid name d)"
  by (simp add: add_allowed_channel_def get_allowed_channels_def)

lemma add_allowed_channel_key:
  "channel_key d \<Longrightarrow> channel_key (add_allowed_channel cid name d)"
  by (simp add: add_allowed_channel_def channel_key_def)

lemma db_handle_set_channel:
  "db (handle_set_channel m w) =
   add_allowed_channel (channel_id m) (case channel_name m of Some n \<Rightarrow> n | None \<Rightarrow> ''DM'') (db w)"
  by (simp add: handle_set_channel_def Let_def emit_def write_db_def)

lemma db_handle_set_channel_again:
  "db ((handle_set_channel m ^^ Suc n) w) = db (handle_set_channel m w)"
proof (induction n)
  case 0
  then show ?case by simp
next
  case (Suc n)
  have "channel_id m \<in> get_allowed_channels (db ((handle_set_channel m ^^ Suc n) w))"
    unfolding Suc.IH db_handle_set_channel by (rule add_allowed_channel_member)
  then have "db ((handle_set_channel m ^^ Suc (Suc n)) w) = db ((handle_set_channel m ^^ Suc n) w)"
    using db_handle_set_channel [of m "(handle_set_channel m ^^ Suc n) w"]
    by (simp add: add_allowed_channel_present)
  with Suc.IH show ?case by simp
qed

text \<open>
  C8. Channel registration is idempotent: after the channel-registration handler has run
  any number of times (at least once) for a channel, the registry is what one run
  leaves, it holds exactly one entry for that channel, and inserting the channel once
  more, under any name, changes nothing.
\<close>

theorem channel_registration_idempotent:
  assumes "channel_key (db w)" and "0 < n"
  shows "length (entries_for (channel_id m) (db ((handle_set_channel m ^^ n) w))) = 1
    \<and> db ((handle_set_channel m ^^ n) w) = db (handle_set_channel m w)
    \<and> add_allowed_channel (channel_id m) name (db (handle_set_channel m w))
        = db (handle_set_channel m w)"
proof -
  let ?d = "db (handle_set_channel m w)"
  obtain k where n: "n = Suc k" using assms(2) by (cases n) auto
  have same: "db ((handle_set_channel m ^^ n) w) = ?d"
    unfolding n by (rule db_handle_set_channel_again)
  have mem: "channel_id m \<in> get_allowed_channels ?d"
    unfolding db_handle_set_channel by (rule add_allowed_channel_member)
  have "channel_key ?d"
    unfolding db_handle_set_channel using assms(1) by (rule add_allowed_channel_key)
  with mem have "length (entries_for (channel_id m) ?d) = 1"
    unfolding entries_for_def channel_key_def get_allowed_channels_def
    by (intro one_entry_per_key) simp_all
  with same add_allowed_channel_present [OF mem] show ?thesis by simp
qed

theorem channel_registration_idempotent_witness:
  "channel_key (db initial_world) \<and> (0::nat) < 2
   \<and> allowed_channels (db (handle_set_channel (guild_message ''!setchannel'')
        (handle_set_channel (guild_message ''!setchannel'') initial_world))) = [(5, ''general'')]
   \<and> length (entries_for 5 (db (handle_set_channel (guild_message ''!setchannel'')
        (handle_set_channel (guild_message ''!setchannel'') initial_world)))) = 1"
proof -
  have k: "channel_key (db initial_world)"
    by (simp add: channel_key_def initial_world_def empty_database_def)
  have c: "channel_id (guild_message ''!setchannel'') = 5" by (simp add: guild_message_def)
  have one: "allowed_channels (db (handle_set_channel (guild_message ''!setchannel'') initial_world)) = [(5, ''general'')]"
    by (simp add: db_handle_set_channel add_allowed_channel_def guild_message_def
        initial_world_def empty_database_def)
  have two: "(handle_set_channel (guild_message ''!setchannel'') ^^ 2) initial_world =
      handle_set_channel (guild_message ''!setchannel'') (handle_set_channel (guild_message ''!setchannel'') initial_world)"
    by (simp add: numeral_2_eq_2)
  have n: "(0::nat) < 2" by simp
  note t = channel_registration_idempotent [OF k n, of "guild_message ''!setchannel''" undefined]
  from t have a: "length (entries_for (channel_id (guild_message ''!setchannel''))
      (db ((handle_set_channel (guild_message ''!setchannel'') ^^ 2) initial_world))) = 1"
    by (rule conjunct1)
  from t have b: "db ((handle_set_channel (guild_message ''!setchannel'') ^^ 2) initial_world)
      = db (handle_set_channel (guild_message ''!setchannel'') initial_world)"
    by (rule conjunct2 [THEN conjunct1])
  from a have a': "length (entries_for 5 (db (handle_set_channel (guild_message ''!setchannel'')
        (handle_set_channel (guild_message ''!setchannel'') initial_world)))) = 1"
    unfolding two c .
  from b have b': "allowed_channels (db (handle_set_channel (guild_message ''!setchannel'')
        (handle_set_channel (guild_message ''!setchannel'') initial_world))) = [(5, ''general'')]"
    unfolding two using one by simp
  from k n a' b' show ?thesis by simp
qed

section \<open>The gate and the commands that bypass it\<close>













section \<open>What the handlers write\<close>































section \<open>The conversation handler\<close>

lemma replies_emit [simp]:
  "replies (emit e w) = replies w @ (case e of Reply s \<Rightarrow> [s] | _ \<Rightarrow> [])"
  by (simp add: replies_def emit_def)

lemma replies_write_db [simp]: "replies (write_db f w) = replies w"
  by (simp add: replies_def write_db_def)

lemma chat_calls_emit [simp]:
  "chat_calls (emit e w) = chat_calls w @ (case e of Chat_call r \<Rightarrow> [r] | _ \<Rightarrow> [])"
  by (simp add: chat_calls_def emit_def)

lemma chat_calls_write_db [simp]: "chat_calls (write_db f w) = chat_calls w"
  by (simp add: chat_calls_def write_db_def)

lemma db_emit [simp]: "db (emit e w) = db w"
  by (simp add: emit_def)

lemma db_write_db [simp]: "db (write_db f w) = f (db w)"
  by (simp add: write_db_def)







section \<open>Failing collaborators\<close>











section \<open>Opinions\<close>











section \<open>Casing of opinion subjects\<close>

lemma lower_char_cases:
  "lower_char c = c \<or> (c \<in> set uppercase \<and> lower_char c \<in> set lowercase)"
proof (cases "map_of (zip uppercase lowercase) c")
  case None
  then show ?thesis by (simp add: lower_char_def)
next
  case (Some d)
  then have "(c, d) \<in> set (zip uppercase lowercase)"
    by (rule map_of_SomeD)
  then have "c \<in> set uppercase" "d \<in> set lowercase"
    by (auto elim: in_set_zipE)
  with Some show ?thesis by (simp add: lower_char_def)
qed

lemma letter_classes:
  assumes "c \<in> set uppercase \<or> c \<in> set lowercase"
  shows "\<not> is_space c" and "is_word c" and "c \<noteq> CHR 0x0A"
  using assms by (auto simp: uppercase_def lowercase_def is_space_def is_word_def digits_def)

lemma lower_char_lowercase: "c \<in> set lowercase \<Longrightarrow> lower_char c = c"
  using lower_char_cases [of c] by (auto simp: uppercase_def lowercase_def)

lemma lower_char_classes [simp]:
  "is_space (lower_char c) = is_space c"
  "is_word (lower_char c) = is_word c"
  "(lower_char c = CHR 0x0A) = (c = CHR 0x0A)"
  "lower_char (lower_char c) = lower_char c"
  using lower_char_cases [of c] letter_classes [of c] letter_classes [of "lower_char c"]
    lower_char_lowercase [of "lower_char c"]
  by auto

lemma lower_char_newline [simp]: "lower_char (CHR 0x0A) = CHR 0x0A"
  using lower_char_classes(3) [of "CHR 0x0A"] by simp

lemma lower_simps [simp]: "lower [] = []" "lower (c # s) = lower_char c # lower s"
  by (simp_all add: lower_def)

lemma in_cls_lower_char [simp]: "in_cls k (lower_char c) = in_cls k c"
  by (cases k) simp_all

lemma lower_lower [simp]: "lower (lower s) = lower s"
  by (simp add: lower_def)










section \<open>Greetings to someone else\<close>

lemma takeWhile_run:
  "list_all P a \<Longrightarrow> b = [] \<or> \<not> P (hd b) \<Longrightarrow> takeWhile P (a @ b) = a"
  by (cases b) (auto simp: list_all_iff takeWhile_append)

lemma in_cls_Space: "in_cls Space = is_space"
  by (rule ext) simp


lemma plus_space_run:
  assumes "list_all is_space ws" and "rest = [] \<or> \<not> is_space (hd rest)"
  shows "rx_step ic (Plus Space) (p, ws @ rest, gs)
    = map (advance (p, ws @ rest, gs)) (rev [1 ..< Suc (length ws)])"
  using takeWhile_run [of is_space ws rest] assms by (simp add: in_cls_Space)
















section \<open>Image requests in natural language\<close>
















lemma image_calls_emit [simp]:
  "image_calls (emit e w) = image_calls w @ (case e of Image_call p \<Rightarrow> [p] | _ \<Rightarrow> [])"
  by (simp add: image_calls_def emit_def)









end
